theory Spec2Isabelle
  imports Main "HOL-Library.Sublist" "HOL-Library.List_Lexorder" "HOL-Library.Char_ord"
    "HOL-Library.Multiset"
begin

section \<open>The migration rollback linter (scripts/check\_migration\_rollbacks.py)\<close>

text \<open>
  The script inspects one directory of the repository, \<open>backend/migrations\<close>, and
  requires every \<open>*.sql\<close> entry that is not on a fixed allowlist to contain the text
  \<open>-- Rollback:\<close>. It talks to the outside world through three calls of \<open>pathlib\<close>
  (\<open>exists\<close>, \<open>glob\<close>, \<open>read_text\<close>) and through \<open>print\<close>. The model makes that
  world an explicit value that \<open>main\<close> receives and returns.
\<close>

subsection \<open>Paths\<close>

text \<open>
  A POSIX path is the list of its components: an absolute path lists the components
  below the root \<open>/\<close>, a relative path the components below its starting point.
  Python compares two paths of the same flavour by their lists of components, and
  strings by code point, which is the lexicographic order on lists used here.
\<close>

type_synonym path = "string list"

text \<open>\<open>str(p)\<close> of an absolute path.\<close>

definition str_path :: "path \<Rightarrow> string" where
  "str_path p = (if p = [] then ''/'' else concat (map (\<lambda>c. ''/'' @ c) p))"

text \<open>\<open>p.as_posix()\<close> of a relative path: the components joined by a forward slash.\<close>

fun as_posix :: "path \<Rightarrow> string" where
  "as_posix [] = ''.''"
| "as_posix [c] = c"
| "as_posix (c # cs) = c @ ''/'' @ as_posix cs"

datatype py_error =
    FileNotFoundError
  | PermissionError
  | IsADirectoryError
  | UnicodeDecodeError
  | ValueError

text \<open>\<open>p.relative_to(other)\<close>: raises \<open>ValueError\<close> unless \<open>other\<close> is a leading part of \<open>p\<close>.\<close>

definition relative_to :: "path \<Rightarrow> path \<Rightarrow> py_error + path" where
  "relative_to p other =
     (if prefix other p then Inr (drop (length other) p) else Inl ValueError)"

text \<open>
  \<open>REPO_ROOT\<close> is computed from the location of the script, so it is a parameter of
  the model. \<open>MIGRATIONS_DIR = REPO_ROOT / "backend" / "migrations"\<close>.
\<close>

definition MIGRATIONS_DIR :: "path \<Rightarrow> path" where
  "MIGRATIONS_DIR REPO_ROOT = REPO_ROOT @ [''backend'', ''migrations'']"

definition ALLOWLIST :: "string set" where
  "ALLOWLIST = {
     ''backend/migrations/1 - init.sql'',
     ''backend/migrations/2025_05_09_create_early_access.sql'',
     ''backend/migrations/2025_05_11_create_signup.sql'',
     ''backend/migrations/2025_05_15_add_user_roles_columns_types.sql'',
     ''backend/migrations/2025_05_23_add_oauth_type_to_users.sql'',
     ''backend/migrations/2025_10_04_1_create_workflow.sql'',
     ''backend/migrations/2025_10_04_2_create_updated_at_trigger.sql'',
     ''backend/migrations/2025_10_07_1_create_workflow_logs.sql'',
     ''backend/migrations/2025_10_07_2_unique_workflow_name.sql'',
     ''backend/migrations/2025_10_07_3_create_workflow_runs.sql'',
     ''backend/migrations/2025_10_07_4_create_workflow_node_runs.sql'',
     ''backend/migrations/2025_10_07_5_add_webhook_salt.sql'',
     ''backend/migrations/2025_10_08_1_alter_workflows_add_concurrency.sql'',
     ''backend/migrations/2025_5_12_add_is_verified.sql'',
     ''backend/migrations/2025_5_12_create_email_verification_tokens.sql'',
     ''backend/migrations/2025_5_13_add_used_at_email_verification_tokens.sql'',
     ''backend/migrations/2025_5_16_add_reset_password_token_fields.sql'',
     ''backend/migrations/2025_9_15_add_used_at_password_reset.sql'',
     ''backend/migrations/2025_9_16_add_oauth_enum_email.sql''}"

subsection \<open>The world the script runs in\<close>

text \<open>
  What lies at a path is a file or a directory. A file is given by what
  \<open>read_text(encoding="utf-8")\<close> does on it: it returns the decoded text, or raises
  (\<open>PermissionError\<close>, \<open>UnicodeDecodeError\<close> on bytes that are not UTF-8). A
  directory is given by the names of its entries, in the order in which the operating
  system enumerates them.
\<close>

datatype entry = File "py_error + string" | Dir "string list"

text \<open>
  The world holds the file system (what lies at each absolute path, \<open>None\<close> where
  nothing does), the lines written so far to the two output streams, and the paths on
  which \<open>read_text\<close> has been called so far, in call order.
\<close>

record world =
  fs :: "path \<Rightarrow> entry option"
  stdout :: "string list"
  stderr :: "string list"
  read_log :: "path list"

text \<open>\<open>p.exists()\<close>: true of a directory and of a file alike.\<close>

definition exists_path :: "world \<Rightarrow> path \<Rightarrow> bool" where
  "exists_path w p = (fs w p \<noteq> None)"

text \<open>
  \<open>p.glob("*.sql")\<close>: the entries directly under \<open>p\<close> whose name ends in \<open>.sql\<close>
  (files and directories alike, hidden names included), each as the path \<open>p / name\<close>,
  in enumeration order. It yields nothing when \<open>p\<close> is not a directory.
\<close>

definition glob_sql :: "world \<Rightarrow> path \<Rightarrow> path list" where
  "glob_sql w p =
     (case fs w p of
        Some (Dir names) \<Rightarrow> map (\<lambda>name. p @ [name]) (filter (suffix ''.sql'') names)
      | _ \<Rightarrow> [])"

text \<open>\<open>p.read_text(encoding="utf-8")\<close>; the call is recorded in the read log.\<close>

definition read_text :: "path \<Rightarrow> world \<Rightarrow> (py_error + string) \<times> world" where
  "read_text p w =
     ((case fs w p of
         None \<Rightarrow> Inl FileNotFoundError
       | Some (Dir names) \<Rightarrow> Inl IsADirectoryError
       | Some (File r) \<Rightarrow> r),
      w\<lparr>read_log := read_log w @ [p]\<rparr>)"

text \<open>\<open>print(line)\<close> and \<open>print(line, file=sys.stderr)\<close>.\<close>

definition print_out :: "string \<Rightarrow> world \<Rightarrow> world" where
  "print_out line w = w\<lparr>stdout := stdout w @ [line]\<rparr>"

definition print_err :: "string \<Rightarrow> world \<Rightarrow> world" where
  "print_err line w = w\<lparr>stderr := stderr w @ [line]\<rparr>"

subsection \<open>The check\<close>

text \<open>
  The loop of \<open>main\<close> over the sorted paths, with the list \<open>failures\<close> as accumulator.
  An exception ends the loop at once: the result is \<open>Inl\<close> the exception.
\<close>

fun scan :: "path \<Rightarrow> path list \<Rightarrow> string list \<Rightarrow> world \<Rightarrow> (py_error + string list) \<times> world" where
  "scan REPO_ROOT [] failures w = (Inr failures, w)"
| "scan REPO_ROOT (p # ps) failures w =
     (case relative_to p REPO_ROOT of
        Inl e \<Rightarrow> (Inl e, w)
      | Inr rel \<Rightarrow>
          (let rel_path = as_posix rel in
           if rel_path \<in> ALLOWLIST then scan REPO_ROOT ps failures w
           else
             (case read_text p w of
                (Inl e, w') \<Rightarrow> (Inl e, w')
              | (Inr text, w') \<Rightarrow>
                  if \<not> sublist ''-- Rollback:'' text
                  then scan REPO_ROOT ps (failures @ [rel_path]) w'
                  else scan REPO_ROOT ps failures w')))"

text \<open>The second loop: one indented line per failure.\<close>

fun print_failures :: "string list \<Rightarrow> world \<Rightarrow> world" where
  "print_failures [] w = w"
| "print_failures (failure # rest) w = print_failures rest (print_out (''  - '' @ failure) w)"

text \<open>
  \<open>main\<close>: \<open>Inr\<close> the exit code it returns, or \<open>Inl\<close> the exception that leaves it,
  together with the world after the run.
\<close>

definition main :: "path \<Rightarrow> world \<Rightarrow> (py_error + int) \<times> world" where
  "main REPO_ROOT w =
     (if \<not> exists_path w (MIGRATIONS_DIR REPO_ROOT) then
        (Inr 1,
         print_err (''Missing migrations directory: '' @ str_path (MIGRATIONS_DIR REPO_ROOT)) w)
      else
        (case scan REPO_ROOT (sort (glob_sql w (MIGRATIONS_DIR REPO_ROOT))) [] w of
           (Inl e, w') \<Rightarrow> (Inl e, w')
         | (Inr failures, w') \<Rightarrow>
             if failures \<noteq> [] then
               (Inr 1,
                print_err ''Add rollback notes or update the allowlist once legacy files are documented.''
                  (print_failures failures
                     (print_out ''The following migrations are missing a '-- Rollback:' guidance block:'' w')))
             else (Inr 0, w')))"

subsection \<open>Vocabulary for the properties\<close>

text \<open>
  The value of the variable \<open>failures\<close> when the first loop of \<open>main\<close> ends, or the
  exception that ended the loop.
\<close>

definition failure_list :: "path \<Rightarrow> world \<Rightarrow> py_error + string list" where
  "failure_list REPO_ROOT w =
     fst (scan REPO_ROOT (sort (glob_sql w (MIGRATIONS_DIR REPO_ROOT))) [] w)"

text \<open>What \<open>read_text\<close> gives on a path in a world.\<close>

definition content :: "world \<Rightarrow> path \<Rightarrow> py_error + string" where
  "content w p = fst (read_text p w)"

text \<open>The string \<open>rel_path\<close> that the loop computes for a path.\<close>

definition rel_str :: "path \<Rightarrow> path \<Rightarrow> string" where
  "rel_str REPO_ROOT p = (case relative_to p REPO_ROOT of Inr rel \<Rightarrow> as_posix rel | Inl e \<Rightarrow> [])"

text \<open>The test \<open>rel_path in ALLOWLIST\<close> for a path.\<close>

definition exempt :: "path \<Rightarrow> path \<Rightarrow> bool" where
  "exempt REPO_ROOT p =
     (case relative_to p REPO_ROOT of Inr rel \<Rightarrow> as_posix rel \<in> ALLOWLIST | Inl e \<Rightarrow> False)"

text \<open>A path whose text can be read and does not contain the marker.\<close>

definition undocumented :: "world \<Rightarrow> path \<Rightarrow> bool" where
  "undocumented w p =
     (case content w p of Inr text \<Rightarrow> \<not> sublist ''-- Rollback:'' text | Inl e \<Rightarrow> False)"

definition readable :: "world \<Rightarrow> path \<Rightarrow> bool" where
  "readable w p = (case content w p of Inr text \<Rightarrow> True | Inl e \<Rightarrow> False)"

text \<open>A path whose text can be read and contains the marker.\<close>

definition documented :: "world \<Rightarrow> path \<Rightarrow> bool" where
  "documented w p =
     (case content w p of Inr text \<Rightarrow> sublist ''-- Rollback:'' text | Inl e \<Rightarrow> False)"

text \<open>
  What one run adds to the world it starts in: the lines it writes to standard output
  and to standard error, and the paths it reads.
\<close>

definition printed_out :: "path \<Rightarrow> world \<Rightarrow> string list" where
  "printed_out REPO_ROOT w = drop (length (stdout w)) (stdout (snd (main REPO_ROOT w)))"

definition printed_err :: "path \<Rightarrow> world \<Rightarrow> string list" where
  "printed_err REPO_ROOT w = drop (length (stderr w)) (stderr (snd (main REPO_ROOT w)))"

definition reads_made :: "path \<Rightarrow> world \<Rightarrow> path list" where
  "reads_made REPO_ROOT w = drop (length (read_log w)) (read_log (snd (main REPO_ROOT w)))"

subsection \<open>Example worlds\<close>

text \<open>A world with empty output streams and read log, from a table of paths.\<close>

definition mk_world :: "(path \<times> entry) list \<Rightarrow> world" where
  "mk_world table = \<lparr>fs = map_of table, stdout = [], stderr = [], read_log = []\<rparr>"

definition demo_root :: path where
  "demo_root = [''srv'', ''repo'']"


text \<open>
  An allowlisted legacy migration without the marker and a new migration with it
  (scenario A of the specification).
\<close>

definition world_a :: world where
  "world_a = mk_world
     [([''srv'', ''repo'', ''backend'', ''migrations''], Dir [''new_feature.sql'', ''1 - init.sql'']),
      ([''srv'', ''repo'', ''backend'', ''migrations'', ''1 - init.sql''],
         File (Inr ''CREATE TABLE users (id int);'')),
      ([''srv'', ''repo'', ''backend'', ''migrations'', ''new_feature.sql''],
         File (Inr ''CREATE TABLE x (id int); -- Rollback: drop table x;''))]"

text \<open>
  Two new migrations without the marker, enumerated out of order, next to an
  allowlisted file that is not valid UTF-8, a documented migration, a file that is not
  a migration, and a subdirectory holding an undocumented migration (scenario C).
\<close>

definition world_c :: world where
  "world_c = mk_world
     [([''srv'', ''repo'', ''backend'', ''migrations''],
         Dir [''zz_drop.sql'', ''notes.txt'', ''1 - init.sql'', ''good.sql'', ''archive'', ''add_col.sql'']),
      ([''srv'', ''repo'', ''backend'', ''migrations'', ''1 - init.sql''], File (Inl UnicodeDecodeError)),
      ([''srv'', ''repo'', ''backend'', ''migrations'', ''zz_drop.sql''], File (Inr ''DROP TABLE t;'')),
      ([''srv'', ''repo'', ''backend'', ''migrations'', ''add_col.sql''],
         File (Inr ''ALTER TABLE t ADD c int; -- rollback: drop column c'')),
      ([''srv'', ''repo'', ''backend'', ''migrations'', ''good.sql''],
         File (Inr ''CREATE INDEX i ON t (c); -- Rollback: DROP INDEX i;'')),
      ([''srv'', ''repo'', ''backend'', ''migrations'', ''notes.txt''], File (Inr ''todo'')),
      ([''srv'', ''repo'', ''backend'', ''migrations'', ''archive''], Dir [''old.sql'']),
      ([''srv'', ''repo'', ''backend'', ''migrations'', ''archive'', ''old.sql''], File (Inr ''DROP TABLE u;''))]"


section \<open>Properties of the loop\<close>

text \<open>The allowlist as a list, for evaluation.\<close>

lemma ALLOWLIST_code [code]:
  "ALLOWLIST = set [
     ''backend/migrations/1 - init.sql'',
     ''backend/migrations/2025_05_09_create_early_access.sql'',
     ''backend/migrations/2025_05_11_create_signup.sql'',
     ''backend/migrations/2025_05_15_add_user_roles_columns_types.sql'',
     ''backend/migrations/2025_05_23_add_oauth_type_to_users.sql'',
     ''backend/migrations/2025_10_04_1_create_workflow.sql'',
     ''backend/migrations/2025_10_04_2_create_updated_at_trigger.sql'',
     ''backend/migrations/2025_10_07_1_create_workflow_logs.sql'',
     ''backend/migrations/2025_10_07_2_unique_workflow_name.sql'',
     ''backend/migrations/2025_10_07_3_create_workflow_runs.sql'',
     ''backend/migrations/2025_10_07_4_create_workflow_node_runs.sql'',
     ''backend/migrations/2025_10_07_5_add_webhook_salt.sql'',
     ''backend/migrations/2025_10_08_1_alter_workflows_add_concurrency.sql'',
     ''backend/migrations/2025_5_12_add_is_verified.sql'',
     ''backend/migrations/2025_5_12_create_email_verification_tokens.sql'',
     ''backend/migrations/2025_5_13_add_used_at_email_verification_tokens.sql'',
     ''backend/migrations/2025_5_16_add_reset_password_token_fields.sql'',
     ''backend/migrations/2025_9_15_add_used_at_password_reset.sql'',
     ''backend/migrations/2025_9_16_add_oauth_enum_email.sql'']"
  unfolding ALLOWLIST_def by (simp only: list.set)


lemma content_simps:
  "content (w\<lparr>read_log := l\<rparr>) p = content w p"
  "content (w\<lparr>stdout := so\<rparr>) p = content w p"
  "content (w\<lparr>stderr := se\<rparr>) p = content w p"
  by (simp_all add: content_def read_text_def)

lemma read_text_eq: "read_text p w = (content w p, w\<lparr>read_log := read_log w @ [p]\<rparr>)"
  by (simp add: content_def read_text_def)

lemma relative_to_child:
  "relative_to (MIGRATIONS_DIR root @ [name]) root = Inr [''backend'', ''migrations'', name]"
  by (simp add: relative_to_def MIGRATIONS_DIR_def)

lemma rel_str_child: "rel_str root (MIGRATIONS_DIR root @ [name]) = ''backend/migrations/'' @ name"
  by (simp add: rel_str_def relative_to_child)

lemma print_failures_eq:
  "print_failures fl w = w\<lparr>stdout := stdout w @ map (\<lambda>f. ''  - '' @ f) fl\<rparr>"
  by (induction fl arbitrary: w) (simp_all add: print_out_def)

lemma scan_step_exempt: "exempt root p \<Longrightarrow> scan root (p # ps) fl w = scan root ps fl w"
  by (simp add: exempt_def split: sum.splits)

lemma scan_step_read:
  "prefix root p \<Longrightarrow> \<not> exempt root p \<Longrightarrow> content w p = Inr text \<Longrightarrow>
   scan root (p # ps) fl w =
     scan root ps (if sublist ''-- Rollback:'' text then fl else fl @ [rel_str root p])
       (w\<lparr>read_log := read_log w @ [p]\<rparr>)"
  by (simp add: exempt_def rel_str_def relative_to_def read_text_eq)

lemma scan_step_error:
  "prefix root p \<Longrightarrow> \<not> exempt root p \<Longrightarrow> content w p = Inl e \<Longrightarrow>
   scan root (p # ps) fl w = (Inl e, w\<lparr>read_log := read_log w @ [p]\<rparr>)"
  by (simp add: exempt_def rel_str_def relative_to_def read_text_eq)

declare scan.simps(2) [simp del]

lemma scan_ok:
  "\<forall>p\<in>set ps. prefix root p \<Longrightarrow>
   \<forall>p\<in>set ps. \<not> exempt root p \<longrightarrow> readable w p \<Longrightarrow>
   scan root ps fl w =
     (Inr (fl @ map (rel_str root) (filter (\<lambda>p. \<not> exempt root p \<and> undocumented w p) ps)),
      w\<lparr>read_log := read_log w @ filter (\<lambda>p. \<not> exempt root p) ps\<rparr>)"
proof (induction ps arbitrary: fl w)
  case Nil
  then show ?case by simp
next
  case (Cons p ps)
  show ?case
  proof (cases "exempt root p")
    case True
    with Cons show ?thesis by (simp add: scan_step_exempt)
  next
    case False
    with Cons.prems obtain body where t: "content w p = Inr body"
      by (auto simp: readable_def split: sum.splits)
    let ?w = "w\<lparr>read_log := read_log w @ [p]\<rparr>"
    have r: "\<forall>q\<in>set ps. \<not> exempt root q \<longrightarrow> readable ?w q"
      using Cons.prems by (simp add: readable_def content_simps)
    have u: "undocumented ?w = undocumented w"
      by (rule ext) (simp add: undocumented_def content_simps)
    from Cons.prems have pp: "prefix root p" and pps: "\<forall>q\<in>set ps. prefix root q" by simp_all
    show ?thesis
      using False t
      by (simp add: scan_step_read [OF pp False t] Cons.IH [OF pps r] u undocumented_def)
  qed
qed

lemma scan_abort:
  "\<forall>p\<in>set ps. prefix root p \<Longrightarrow>
   filter (\<lambda>p. \<not> exempt root p) ps = good @ bad # rest \<Longrightarrow>
   \<forall>p\<in>set good. readable w p \<Longrightarrow> content w bad = Inl e \<Longrightarrow>
   scan root ps fl w = (Inl e, w\<lparr>read_log := read_log w @ good @ [bad]\<rparr>)"
proof (induction ps arbitrary: fl w good)
  case Nil
  then show ?case by simp
next
  case step: (Cons p ps)
  from step.prems have pp: "prefix root p" and pps: "\<forall>q\<in>set ps. prefix root q" by simp_all
  show ?case
  proof (cases "exempt root p")
    case True
    with step.prems have "filter (\<lambda>p. \<not> exempt root p) ps = good @ bad # rest" by simp
    from step.IH [OF pps this step.prems(3) step.prems(4)] True show ?thesis
      by (simp add: scan_step_exempt)
  next
    case False
    with step.prems have f: "p # filter (\<lambda>p. \<not> exempt root p) ps = good @ bad # rest" by simp
    show ?thesis
    proof (cases good)
      case Nil
      with f have pb: "p = bad" by simp
      with step.prems(4) have "content w p = Inl e" by simp
      from scan_step_error [OF pp False this] Nil pb show ?thesis by simp
    next
      case (Cons g good')
      with f have pg: "p = g" and f': "filter (\<lambda>p. \<not> exempt root p) ps = good' @ bad # rest" by simp_all
      from Cons pg step.prems(3) obtain body where t: "content w p = Inr body"
        by (auto simp: readable_def split: sum.splits)
      let ?w = "w\<lparr>read_log := read_log w @ [p]\<rparr>"
      have r: "\<forall>q\<in>set good'. readable ?w q"
        using step.prems(3) Cons by (simp add: readable_def content_simps)
      have c: "content ?w bad = Inl e" using step.prems(4) by (simp add: content_simps)
      have "scan root (p # ps) fl w = (Inl e, ?w\<lparr>read_log := read_log ?w @ good' @ [bad]\<rparr>)"
        by (simp add: scan_step_read [OF pp False t] step.IH [OF pps f' r c])
      then show ?thesis
        using Cons pg by simp
    qed
  qed
qed

section \<open>Properties of \<open>main\<close>\<close>

lemma glob_paths: "p \<in> set (glob_sql w (MIGRATIONS_DIR root)) \<Longrightarrow>
  \<exists>name. p = MIGRATIONS_DIR root @ [name] \<and> suffix ''.sql'' name"
  by (auto simp: glob_sql_def split: option.splits entry.splits)

lemma glob_prefix: "p \<in> set (glob_sql w (MIGRATIONS_DIR root)) \<Longrightarrow> prefix root p"
  using glob_paths [of p w root] by (auto simp: MIGRATIONS_DIR_def)

lemma candidates_prefix: "\<forall>p\<in>set (sort (glob_sql w (MIGRATIONS_DIR root))). prefix root p"
  by (simp add: glob_prefix)


lemma rel_str_inj:
  assumes "p \<in> set (glob_sql w (MIGRATIONS_DIR root))" "q \<in> set (glob_sql w (MIGRATIONS_DIR root))"
    "rel_str root p = rel_str root q"
  shows "p = q"
  using assms by (auto dest!: glob_paths simp: rel_str_child)

lemma scan_cases:
  assumes "\<forall>p\<in>set ps. prefix root p"
  obtains
    (ok) "\<forall>p\<in>set ps. \<not> exempt root p \<longrightarrow> readable w p"
      "scan root ps fl w =
        (Inr (fl @ map (rel_str root) (filter (\<lambda>p. \<not> exempt root p \<and> undocumented w p) ps)),
         w\<lparr>read_log := read_log w @ filter (\<lambda>p. \<not> exempt root p) ps\<rparr>)"
  | (abort) good bad rest e where
      "filter (\<lambda>p. \<not> exempt root p) ps = good @ bad # rest"
      "\<forall>p\<in>set good. readable w p" "content w bad = Inl e"
      "scan root ps fl w = (Inl e, w\<lparr>read_log := read_log w @ good @ [bad]\<rparr>)"
proof (cases "\<forall>p\<in>set ps. \<not> exempt root p \<longrightarrow> readable w p")
  case True
  from ok [OF True scan_ok [OF assms True]] show ?thesis .
next
  case False
  then have "\<exists>p\<in>set (filter (\<lambda>p. \<not> exempt root p) ps). \<not> readable w p" by auto
  then obtain good bad rest where
    f: "filter (\<lambda>p. \<not> exempt root p) ps = good @ bad # rest"
    and b: "\<not> readable w bad" and g: "\<forall>p\<in>set good. \<not> \<not> readable w p"
    by (rule split_list_first_propE)
  from b obtain e where e: "content w bad = Inl e"
    by (auto simp: readable_def split: sum.splits)
  from g have g': "\<forall>p\<in>set good. readable w p" by simp
  from abort [OF f g' e scan_abort [OF assms f g' e]] show ?thesis .
qed

lemma main_missing:
  "\<not> exists_path w (MIGRATIONS_DIR root) \<Longrightarrow>
   main root w =
     (Inr 1, w\<lparr>stderr := stderr w @
        [''Missing migrations directory: '' @ str_path (MIGRATIONS_DIR root)]\<rparr>)"
  by (simp add: main_def print_err_def)

lemma main_scanned:
  "exists_path w (MIGRATIONS_DIR root) \<Longrightarrow>
   scan root (sort (glob_sql w (MIGRATIONS_DIR root))) [] w = (Inr fl, w') \<Longrightarrow>
   main root w =
     (if fl \<noteq> [] then
        (Inr 1, w'\<lparr>stdout := stdout w' @
                   ''The following migrations are missing a '-- Rollback:' guidance block:''
                   # map (\<lambda>f. ''  - '' @ f) fl,
                 stderr := stderr w' @
                   [''Add rollback notes or update the allowlist once legacy files are documented.'']\<rparr>)
      else (Inr 0, w'))"
  by (simp add: main_def print_err_def print_out_def print_failures_eq)

lemma main_raised:
  "exists_path w (MIGRATIONS_DIR root) \<Longrightarrow>
   scan root (sort (glob_sql w (MIGRATIONS_DIR root))) [] w = (Inl e, w') \<Longrightarrow>
   main root w = (Inl e, w')"
  by (simp add: main_def)

lemma scan_world:
  assumes "\<forall>p\<in>set ps. prefix root p"
  shows "\<exists>rl. snd (scan root ps fl w) = w\<lparr>read_log := read_log w @ rl\<rparr>"
  using assms by (rule scan_cases [where fl = fl and w = w]) auto

lemma main_world:
  "\<exists>out err rl. snd (main root w) =
     w\<lparr>stdout := stdout w @ out, stderr := stderr w @ err, read_log := read_log w @ rl\<rparr>"
proof (cases "exists_path w (MIGRATIONS_DIR root)")
  case False
  have "snd (main root w) = w\<lparr>stdout := stdout w @ [], stderr := stderr w @
        [''Missing migrations directory: '' @ str_path (MIGRATIONS_DIR root)], read_log := read_log w @ []\<rparr>"
    by (simp add: main_missing [OF False])
  then show ?thesis by blast
next
  case True
  let ?ps = "sort (glob_sql w (MIGRATIONS_DIR root))"
  from scan_world [OF candidates_prefix] obtain rl where
    rl: "snd (scan root ?ps [] w) = w\<lparr>read_log := read_log w @ rl\<rparr>" by blast
  show ?thesis
  proof (cases "fst (scan root ?ps [] w)")
    case (Inl e)
    with rl have "scan root ?ps [] w = (Inl e, w\<lparr>read_log := read_log w @ rl\<rparr>)"
      by (simp add: prod_eq_iff)
    from main_raised [OF True this]
    have "snd (main root w) = w\<lparr>stdout := stdout w @ [], stderr := stderr w @ [], read_log := read_log w @ rl\<rparr>"
      by simp
    then show ?thesis by blast
  next
    case (Inr fl)
    with rl have "scan root ?ps [] w = (Inr fl, w\<lparr>read_log := read_log w @ rl\<rparr>)"
      by (simp add: prod_eq_iff)
    from main_scanned [OF True this]
    have "snd (main root w) = w\<lparr>stdout := stdout w @ (if fl \<noteq> [] then
                   ''The following migrations are missing a '-- Rollback:' guidance block:''
                   # map (\<lambda>f. ''  - '' @ f) fl else []),
        stderr := stderr w @ (if fl \<noteq> [] then  [''Add rollback notes or update the allowlist once legacy files are documented.''] else []),
        read_log := read_log w @ rl\<rparr>"
      by simp
    then show ?thesis by blast
  qed
qed

section \<open>Runs in worlds that agree\<close>

lemma scan_agree:
  assumes pre: "\<forall>p\<in>set ps. prefix root p"
    and ct: "\<forall>p\<in>set ps. \<not> exempt root p \<longrightarrow> content w' p = content w p"
  shows "\<exists>r rl. scan root ps fl w = (r, w\<lparr>read_log := read_log w @ rl\<rparr>) \<and>
                scan root ps fl w' = (r, w'\<lparr>read_log := read_log w' @ rl\<rparr>)"
  using pre
proof (cases rule: scan_cases [where fl = fl and w = w])
  case ok
  from ok(1) ct have rd: "\<forall>p\<in>set ps. \<not> exempt root p \<longrightarrow> readable w' p"
    by (auto simp: readable_def)
  have "filter (\<lambda>p. \<not> exempt root p \<and> undocumented w' p) ps =
        filter (\<lambda>p. \<not> exempt root p \<and> undocumented w p) ps"
    using ct by (intro filter_cong) (auto simp: undocumented_def)
  with scan_ok [OF pre rd, of fl] have
    "scan root ps fl w' =
      (Inr (fl @ map (rel_str root) (filter (\<lambda>p. \<not> exempt root p \<and> undocumented w p) ps)),
       w'\<lparr>read_log := read_log w' @ filter (\<lambda>p. \<not> exempt root p) ps\<rparr>)" by simp
  with ok(2) show ?thesis by blast
next
  case (abort good bad rest e)
  from abort(1) have sub: "set good \<subseteq> set (filter (\<lambda>p. \<not> exempt root p) ps)"
    and b: "bad \<in> set (filter (\<lambda>p. \<not> exempt root p) ps)" by auto
  from sub abort(2) ct have g: "\<forall>p\<in>set good. readable w' p"
    by (auto simp: readable_def)
  from b ct abort(3) have c: "content w' bad = Inl e" by simp
  from scan_abort [OF pre abort(1) g c, of fl] abort(4) show ?thesis by blast
qed

lemma agreeI:
  assumes "main root w = (r, w\<lparr>stdout := stdout w @ out, stderr := stderr w @ err,
                               read_log := read_log w @ rl\<rparr>)"
    and "main root w' = (r, w'\<lparr>stdout := stdout w' @ out, stderr := stderr w' @ err,
                               read_log := read_log w' @ rl\<rparr>)"
  shows "\<exists>r out err rl.
           main root w = (r, w\<lparr>stdout := stdout w @ out, stderr := stderr w @ err,
                               read_log := read_log w @ rl\<rparr>) \<and>
           main root w' = (r, w'\<lparr>stdout := stdout w' @ out, stderr := stderr w' @ err,
                               read_log := read_log w' @ rl\<rparr>)"
  using assms by (intro exI conjI)

lemma main_agree:
  assumes ex: "exists_path w' (MIGRATIONS_DIR root) = exists_path w (MIGRATIONS_DIR root)"
    and gl: "sort (glob_sql w' (MIGRATIONS_DIR root)) = sort (glob_sql w (MIGRATIONS_DIR root))"
    and ct: "\<forall>p\<in>set (glob_sql w (MIGRATIONS_DIR root)). \<not> exempt root p \<longrightarrow> content w' p = content w p"
  shows "\<exists>r out err rl.
           main root w = (r, w\<lparr>stdout := stdout w @ out, stderr := stderr w @ err,
                               read_log := read_log w @ rl\<rparr>) \<and>
           main root w' = (r, w'\<lparr>stdout := stdout w' @ out, stderr := stderr w' @ err,
                               read_log := read_log w' @ rl\<rparr>)"
    and "failure_list root w' = failure_list root w"
proof -
  let ?ps = "sort (glob_sql w (MIGRATIONS_DIR root))"
  have pre: "\<forall>p\<in>set ?ps. prefix root p" by (rule candidates_prefix)
  from ct have ct': "\<forall>p\<in>set ?ps. \<not> exempt root p \<longrightarrow> content w' p = content w p" by simp
  from scan_agree [OF pre ct', of "[]"] obtain r rl where
    s: "scan root ?ps [] w = (r, w\<lparr>read_log := read_log w @ rl\<rparr>)"
    and s': "scan root ?ps [] w' = (r, w'\<lparr>read_log := read_log w' @ rl\<rparr>)" by blast
  from s s' gl show "failure_list root w' = failure_list root w"
    by (simp add: failure_list_def)
  show "\<exists>r out err rl.
           main root w = (r, w\<lparr>stdout := stdout w @ out, stderr := stderr w @ err,
                               read_log := read_log w @ rl\<rparr>) \<and>
           main root w' = (r, w'\<lparr>stdout := stdout w' @ out, stderr := stderr w' @ err,
                               read_log := read_log w' @ rl\<rparr>)"
  proof (cases "exists_path w (MIGRATIONS_DIR root)")
    case False
    with ex have False': "\<not> exists_path w' (MIGRATIONS_DIR root)" by simp
    let ?msg = "''Missing migrations directory: '' @ str_path (MIGRATIONS_DIR root)"
    have "main root w = (Inr 1, w\<lparr>stdout := stdout w @ [], stderr := stderr w @ [?msg],
                               read_log := read_log w @ []\<rparr>)"
      "main root w' = (Inr 1, w'\<lparr>stdout := stdout w' @ [], stderr := stderr w' @ [?msg],
                               read_log := read_log w' @ []\<rparr>)"
      by (simp_all add: main_missing [OF False] main_missing [OF False'])
    then show ?thesis by (rule agreeI)
  next
    case True
    with ex have True': "exists_path w' (MIGRATIONS_DIR root)" by simp
    from s' gl have s'': "scan root (sort (glob_sql w' (MIGRATIONS_DIR root))) [] w' =
      (r, w'\<lparr>read_log := read_log w' @ rl\<rparr>)" by simp
    show ?thesis
    proof (cases r)
      case (Inl e)
      have "main root w = (Inl e, w\<lparr>stdout := stdout w @ [], stderr := stderr w @ [],
                               read_log := read_log w @ rl\<rparr>)"
        "main root w' = (Inl e, w'\<lparr>stdout := stdout w' @ [], stderr := stderr w' @ [],
                               read_log := read_log w' @ rl\<rparr>)"
        using main_raised [OF True s [unfolded Inl]] main_raised [OF True' s'' [unfolded Inl]]
        by simp_all
      then show ?thesis by (rule agreeI)
    next
      case (Inr fl)
      let ?out = "if fl \<noteq> [] then
                   ''The following migrations are missing a '-- Rollback:' guidance block:''
                   # map (\<lambda>f. ''  - '' @ f) fl else []"
      let ?err = "if fl \<noteq> [] then
          [''Add rollback notes or update the allowlist once legacy files are documented.'']
          else []"
      have "main root w = (Inr (if fl \<noteq> [] then 1 else 0),
               w\<lparr>stdout := stdout w @ ?out, stderr := stderr w @ ?err,
                               read_log := read_log w @ rl\<rparr>)"
        "main root w' = (Inr (if fl \<noteq> [] then 1 else 0),
               w'\<lparr>stdout := stdout w' @ ?out, stderr := stderr w' @ ?err,
                               read_log := read_log w' @ rl\<rparr>)"
        using main_scanned [OF True s [unfolded Inr]] main_scanned [OF True' s'' [unfolded Inr]]
        by simp_all
      then show ?thesis by (rule agreeI)
    qed
  qed
qed

lemma same_run:
  assumes ex: "exists_path w' (MIGRATIONS_DIR root) = exists_path w (MIGRATIONS_DIR root)"
    and gl: "sort (glob_sql w' (MIGRATIONS_DIR root)) = sort (glob_sql w (MIGRATIONS_DIR root))"
    and ct: "\<forall>p\<in>set (glob_sql w (MIGRATIONS_DIR root)). \<not> exempt root p \<longrightarrow> content w' p = content w p"
  shows "fst (main root w') = fst (main root w) \<and>
         failure_list root w' = failure_list root w \<and>
         printed_out root w' = printed_out root w \<and>
         printed_err root w' = printed_err root w \<and>
         reads_made root w' = reads_made root w"
proof -
  from main_agree(1) [OF assms] obtain r out err rl where
    "main root w = (r, w\<lparr>stdout := stdout w @ out, stderr := stderr w @ err,
                               read_log := read_log w @ rl\<rparr>)"
    "main root w' = (r, w'\<lparr>stdout := stdout w' @ out, stderr := stderr w' @ err,
                               read_log := read_log w' @ rl\<rparr>)" by (elim exE conjE)
  with main_agree(2) [OF assms] show ?thesis
    by (simp add: printed_out_def printed_err_def reads_made_def)
qed

lemma printed_eq:
  "stdout (snd (main root w)) = stdout w @ printed_out root w"
  "stderr (snd (main root w)) = stderr w @ printed_err root w"
  "read_log (snd (main root w)) = read_log w @ reads_made root w"
proof -
  from main_world [of root w] obtain out err rl where
    "snd (main root w) =
      w\<lparr>stdout := stdout w @ out, stderr := stderr w @ err, read_log := read_log w @ rl\<rparr>"
    by (elim exE)
  then show "stdout (snd (main root w)) = stdout w @ printed_out root w"
  "stderr (snd (main root w)) = stderr w @ printed_err root w"
  "read_log (snd (main root w)) = read_log w @ reads_made root w"
    by (simp_all add: printed_out_def printed_err_def reads_made_def)
qed


section \<open>The failure list and the reads of a run\<close>

lemma failure_list_InrD:
  assumes "failure_list root w = Inr fl"
  shows "fl = map (rel_str root) (filter (\<lambda>p. \<not> exempt root p \<and> undocumented w p)
                (sort (glob_sql w (MIGRATIONS_DIR root))))"
    and "\<forall>p\<in>set (glob_sql w (MIGRATIONS_DIR root)). \<not> exempt root p \<longrightarrow> readable w p"
proof -
  let ?ps = "sort (glob_sql w (MIGRATIONS_DIR root))"
  have pre: "\<forall>p\<in>set ?ps. prefix root p" by (rule candidates_prefix)
  from pre have "fl = map (rel_str root) (filter (\<lambda>p. \<not> exempt root p \<and> undocumented w p) ?ps) \<and>
    (\<forall>p\<in>set ?ps. \<not> exempt root p \<longrightarrow> readable w p)"
  proof (cases rule: scan_cases [where fl = "[]" and w = w])
    case ok
    with assms show ?thesis by (simp add: failure_list_def)
  next
    case (abort good bad rest e)
    with assms show ?thesis by (simp add: failure_list_def)
  qed
  then show "fl = map (rel_str root) (filter (\<lambda>p. \<not> exempt root p \<and> undocumented w p) ?ps)"
    and "\<forall>p\<in>set (glob_sql w (MIGRATIONS_DIR root)). \<not> exempt root p \<longrightarrow> readable w p"
    by simp_all
qed




lemma content_fs: "fs w' p = fs w p \<Longrightarrow> content w' p = content w p"
  by (simp add: content_def read_text_def)

lemma exempt_rel_str: "exempt root p \<Longrightarrow> rel_str root p \<in> ALLOWLIST"
  by (simp add: exempt_def rel_str_def split: sum.splits)

lemma not_exempt_rel_str: "prefix root p \<Longrightarrow> \<not> exempt root p \<Longrightarrow> rel_str root p \<notin> ALLOWLIST"
  by (simp add: exempt_def rel_str_def relative_to_def)

lemma dir_not_exempt: "\<not> exempt root (MIGRATIONS_DIR root)"
  by (simp add: exempt_def relative_to_def MIGRATIONS_DIR_def ALLOWLIST_def)

lemma reads_made_subset:
  assumes "q \<in> set (reads_made root w)"
  shows "q \<in> set (glob_sql w (MIGRATIONS_DIR root)) \<and> \<not> exempt root q"
proof (cases "exists_path w (MIGRATIONS_DIR root)")
  case False
  from main_missing [OF False] assms show ?thesis by (simp add: reads_made_def)
next
  case True
  let ?ps = "sort (glob_sql w (MIGRATIONS_DIR root))"
  have pre: "\<forall>p\<in>set ?ps. prefix root p" by (rule candidates_prefix)
  from pre show ?thesis
  proof (cases rule: scan_cases [where fl = "[]" and w = w])
    case ok
    from main_scanned [OF True ok(2)] assms
    have "q \<in> set (filter (\<lambda>p. \<not> exempt root p) ?ps)"
      by (simp add: reads_made_def split: if_splits)
    then show ?thesis by simp
  next
    case (abort good bad rest e)
    from main_raised [OF True abort(4)] assms have "q \<in> set (good @ bad # rest)"
      by (auto simp: reads_made_def)
    with abort(1) have "q \<in> set (filter (\<lambda>p. \<not> exempt root p) ?ps)" by simp
    then show ?thesis by simp
  qed
qed


section \<open>The claims\<close>




text \<open>
  C2. For a non-exempt \<open>*.sql\<close> entry of the migrations directory whose text is \<open>body\<close>,
  the loop leaves the failure list as it is when \<open>body\<close> is some text, then the twelve
  characters \<open>-- Rollback:\<close> exactly (same case, same spaces), then some text, and appends
  the relative path of the entry otherwise. So in the failure list of a run the
  relative path of the entry is absent if and only if the marker occurs in \<open>body\<close>.
\<close>

theorem marker_decides:
  assumes "p \<in> set (glob_sql w (MIGRATIONS_DIR REPO_ROOT))"
    and "\<not> exempt REPO_ROOT p"
    and "content w p = Inr body"
  shows "scan REPO_ROOT (p # ps) failures w =
           scan REPO_ROOT ps
             (if \<exists>before after. body = before @ ''-- Rollback:'' @ after then failures
              else failures @ [rel_str REPO_ROOT p])
             (snd (read_text p w)) \<and>
         (failure_list REPO_ROOT w = Inr fl \<longrightarrow>
            (rel_str REPO_ROOT p \<notin> set fl \<longleftrightarrow>
               (\<exists>before after. body = before @ ''-- Rollback:'' @ after)))"
proof -
  let ?D = "MIGRATIONS_DIR REPO_ROOT"
  have pp: "prefix REPO_ROOT p" using assms(1) by (rule glob_prefix)
  have s: "sublist ''-- Rollback:'' body \<longleftrightarrow> (\<exists>before after. body = before @ ''-- Rollback:'' @ after)"
    by (simp only: sublist_def)
  have step: "scan REPO_ROOT (p # ps) failures w =
           scan REPO_ROOT ps
             (if \<exists>before after. body = before @ ''-- Rollback:'' @ after then failures
              else failures @ [rel_str REPO_ROOT p])
             (snd (read_text p w))"
    unfolding s [symmetric]
    by (simp only: scan_step_read [OF pp assms(2,3)] read_text_eq snd_conv)
  have whole: "rel_str REPO_ROOT p \<notin> set fl \<longleftrightarrow> sublist ''-- Rollback:'' body"
    if f: "failure_list REPO_ROOT w = Inr fl"
  proof
    assume "rel_str REPO_ROOT p \<notin> set fl"
    with failure_list_InrD(1) [OF f] assms(1,2) have "\<not> undocumented w p" by auto
    with assms(3) show "sublist ''-- Rollback:'' body" by (simp add: undocumented_def)
  next
    assume m: "sublist ''-- Rollback:'' body"
    show "rel_str REPO_ROOT p \<notin> set fl"
    proof
      assume "rel_str REPO_ROOT p \<in> set fl"
      with failure_list_InrD(1) [OF f] obtain q where
        q: "q \<in> set (glob_sql w ?D)" "undocumented w q" "rel_str REPO_ROOT q = rel_str REPO_ROOT p"
        by auto
      from rel_str_inj [OF q(1) assms(1) q(3)] q(2) assms(3) m show False
        by (simp add: undocumented_def)
    qed
  qed
  from step whole show ?thesis unfolding s by blast
qed

theorem marker_decides_witness:
  "[''srv'', ''repo'', ''backend'', ''migrations'', ''add_col.sql'']
     \<in> set (glob_sql world_c (MIGRATIONS_DIR demo_root)) \<and>
   \<not> exempt demo_root [''srv'', ''repo'', ''backend'', ''migrations'', ''add_col.sql''] \<and>
   content world_c [''srv'', ''repo'', ''backend'', ''migrations'', ''add_col.sql''] =
     Inr ''ALTER TABLE t ADD c int; -- rollback: drop column c'' \<and>
   failure_list demo_root world_c =
     Inr [''backend/migrations/add_col.sql'', ''backend/migrations/zz_drop.sql''] \<and>
   rel_str demo_root [''srv'', ''repo'', ''backend'', ''migrations'', ''add_col.sql'']
     \<in> set [''backend/migrations/add_col.sql'', ''backend/migrations/zz_drop.sql''] \<and>
   \<not> (\<exists>before after.
        ''ALTER TABLE t ADD c int; -- rollback: drop column c'' = before @ ''-- Rollback:'' @ after)"
proof -
  let ?p = "[''srv'', ''repo'', ''backend'', ''migrations'', ''add_col.sql'']"
  have h1: "?p \<in> set (glob_sql world_c (MIGRATIONS_DIR demo_root))" by code_simp
  have h2: "\<not> exempt demo_root ?p" by code_simp
  have h3: "content world_c ?p = Inr ''ALTER TABLE t ADD c int; -- rollback: drop column c''"
    by code_simp
  have f: "failure_list demo_root world_c =
     Inr [''backend/migrations/add_col.sql'', ''backend/migrations/zz_drop.sql'']" by code_simp
  have m: "rel_str demo_root ?p
     \<in> set [''backend/migrations/add_col.sql'', ''backend/migrations/zz_drop.sql'']"
    by code_simp
  from marker_decides [OF h1 h2 h3, of "[]" "[]"
      "[''backend/migrations/add_col.sql'', ''backend/migrations/zz_drop.sql'']"] f m
  have "\<not> (\<exists>before after.
        ''ALTER TABLE t ADD c int; -- rollback: drop column c'' = before @ ''-- Rollback:'' @ after)"
    by blast
  with h1 h2 h3 f m show ?thesis by blast
qed

text \<open>
  C3. An entry whose relative path is on the allowlist passes whatever lies at its
  path: the loop skips it before any read, so the path is not among the reads of the
  run and not in its failure list, and replacing what lies at the path by anything
  else (an empty file, bytes that do not decode, nothing at all) changes neither the
  result of \<open>main\<close> nor its failure list nor what it prints.
\<close>

theorem exempt_entries_pass_unread:
  assumes "exempt REPO_ROOT p"
  shows "scan REPO_ROOT (p # ps) failures w = scan REPO_ROOT ps failures w \<and>
         p \<notin> set (reads_made REPO_ROOT w) \<and>
         (failure_list REPO_ROOT w = Inr fl \<longrightarrow> rel_str REPO_ROOT p \<notin> set fl) \<and>
         fst (main REPO_ROOT (w\<lparr>fs := (fs w)(p := x)\<rparr>)) = fst (main REPO_ROOT w) \<and>
         failure_list REPO_ROOT (w\<lparr>fs := (fs w)(p := x)\<rparr>) = failure_list REPO_ROOT w \<and>
         printed_out REPO_ROOT (w\<lparr>fs := (fs w)(p := x)\<rparr>) = printed_out REPO_ROOT w \<and>
         printed_err REPO_ROOT (w\<lparr>fs := (fs w)(p := x)\<rparr>) = printed_err REPO_ROOT w"
proof -
  let ?D = "MIGRATIONS_DIR REPO_ROOT"
  let ?w' = "w\<lparr>fs := (fs w)(p := x)\<rparr>"
  have step: "scan REPO_ROOT (p # ps) failures w = scan REPO_ROOT ps failures w"
    using assms by (rule scan_step_exempt)
  have unread: "p \<notin> set (reads_made REPO_ROOT w)"
    using reads_made_subset [of p REPO_ROOT w] assms by blast
  have passes: "rel_str REPO_ROOT p \<notin> set fl" if f: "failure_list REPO_ROOT w = Inr fl"
  proof
    assume "rel_str REPO_ROOT p \<in> set fl"
    with failure_list_InrD(1) [OF f] obtain q where
      q: "q \<in> set (glob_sql w ?D)" "\<not> exempt REPO_ROOT q" "rel_str REPO_ROOT q = rel_str REPO_ROOT p"
      by auto
    from not_exempt_rel_str [OF glob_prefix [OF q(1)] q(2)] q(3) exempt_rel_str [OF assms]
    show False by simp
  qed
  from assms dir_not_exempt [of REPO_ROOT] have ne: "p \<noteq> ?D" by auto
  then have ex: "exists_path ?w' ?D = exists_path w ?D"
    and gl: "sort (glob_sql ?w' ?D) = sort (glob_sql w ?D)"
    by (simp_all add: exists_path_def glob_sql_def)
  have ct: "\<forall>q\<in>set (glob_sql w ?D). \<not> exempt REPO_ROOT q \<longrightarrow> content ?w' q = content w q"
    using assms by (auto intro!: content_fs)
  from same_run [OF ex gl ct] step unread passes show ?thesis by simp
qed

theorem exempt_entries_pass_unread_witness:
  "exempt demo_root [''srv'', ''repo'', ''backend'', ''migrations'', ''1 - init.sql''] \<and>
   content world_c [''srv'', ''repo'', ''backend'', ''migrations'', ''1 - init.sql''] =
     Inl UnicodeDecodeError \<and>
   [''srv'', ''repo'', ''backend'', ''migrations'', ''1 - init.sql'']
     \<notin> set (reads_made demo_root world_c) \<and>
   failure_list demo_root world_c =
     Inr [''backend/migrations/add_col.sql'', ''backend/migrations/zz_drop.sql''] \<and>
   rel_str demo_root [''srv'', ''repo'', ''backend'', ''migrations'', ''1 - init.sql'']
     \<notin> set [''backend/migrations/add_col.sql'', ''backend/migrations/zz_drop.sql''] \<and>
   fst (main demo_root (world_c\<lparr>fs := (fs world_c)
          ([''srv'', ''repo'', ''backend'', ''migrations'', ''1 - init.sql''] := Some (File (Inr '''')))\<rparr>)) =
     Inr 1 \<and>
   printed_out demo_root (world_c\<lparr>fs := (fs world_c)
          ([''srv'', ''repo'', ''backend'', ''migrations'', ''1 - init.sql''] := Some (File (Inr '''')))\<rparr>) =
     [''The following migrations are missing a '-- Rollback:' guidance block:'',
      ''  - backend/migrations/add_col.sql'',
      ''  - backend/migrations/zz_drop.sql'']"
proof -
  let ?p = "[''srv'', ''repo'', ''backend'', ''migrations'', ''1 - init.sql'']"
  have h: "exempt demo_root ?p" by code_simp
  have c: "content world_c ?p = Inl UnicodeDecodeError" by code_simp
  have f: "failure_list demo_root world_c =
     Inr [''backend/migrations/add_col.sql'', ''backend/migrations/zz_drop.sql'']" by code_simp
  have r: "fst (main demo_root world_c) = Inr 1" by code_simp
  have out: "printed_out demo_root world_c =
     [''The following migrations are missing a '-- Rollback:' guidance block:'',
      ''  - backend/migrations/add_col.sql'',
      ''  - backend/migrations/zz_drop.sql'']" by code_simp
  from exempt_entries_pass_unread [OF h, of "[]" "[]" world_c
      "[''backend/migrations/add_col.sql'', ''backend/migrations/zz_drop.sql'']"
      "Some (File (Inr ''''))"] h c f
  show ?thesis unfolding r out by simp
qed









text \<open>
  C8. A run never changes the file system: the world after \<open>main\<close> is the world before
  it with lines appended to standard output and to standard error (and with the reads
  it made appended to the read log); what lies at each path is the same.
\<close>

theorem run_is_read_only:
  "fs (snd (main REPO_ROOT w)) = fs w \<and>
   (\<exists>out err reads. snd (main REPO_ROOT w) =
      w\<lparr>stdout := stdout w @ out, stderr := stderr w @ err, read_log := read_log w @ reads\<rparr>)"
proof -
  from main_world [of REPO_ROOT w] obtain out err rl where
    e: "snd (main REPO_ROOT w) =
      w\<lparr>stdout := stdout w @ out, stderr := stderr w @ err, read_log := read_log w @ rl\<rparr>"
    by blast
  then have "fs (snd (main REPO_ROOT w)) = fs w" by simp
  with e show ?thesis by blast
qed

theorem run_is_read_only_witness:
  "fs (snd (main demo_root world_c)) = fs world_c"
  using run_is_read_only [of demo_root world_c] by (rule conjunct1)



text \<open>
  C10. On a successful run, that is when the migrations directory exists and the first
  loop ends with an empty failure list, \<open>main\<close> returns 0 and writes nothing to standard
  output and nothing to standard error.
\<close>

theorem success_is_silent:
  assumes "exists_path w (MIGRATIONS_DIR REPO_ROOT)"
    and "failure_list REPO_ROOT w = Inr []"
  shows "fst (main REPO_ROOT w) = Inr 0 \<and>
         stdout (snd (main REPO_ROOT w)) = stdout w \<and>
         stderr (snd (main REPO_ROOT w)) = stderr w"
proof -
  let ?ps = "sort (glob_sql w (MIGRATIONS_DIR REPO_ROOT))"
  from scan_world [OF candidates_prefix] obtain rl where
    rl: "snd (scan REPO_ROOT ?ps [] w) = w\<lparr>read_log := read_log w @ rl\<rparr>" by blast
  with assms(2) have "scan REPO_ROOT ?ps [] w = (Inr [], w\<lparr>read_log := read_log w @ rl\<rparr>)"
    by (simp add: failure_list_def prod_eq_iff)
  from main_scanned [OF assms(1) this] show ?thesis by simp
qed

theorem success_is_silent_witness:
  "exists_path world_a (MIGRATIONS_DIR demo_root) \<and>
   failure_list demo_root world_a = Inr [] \<and>
   fst (main demo_root world_a) = Inr 0 \<and>
   stdout (snd (main demo_root world_a)) = [] \<and>
   stderr (snd (main demo_root world_a)) = []"
proof -
  have h1: "exists_path world_a (MIGRATIONS_DIR demo_root)" by code_simp
  have h2: "failure_list demo_root world_a = Inr []" by code_simp
  have s: "stdout world_a = []" "stderr world_a = []"
    by (simp_all add: world_a_def mk_world_def)
  from success_is_silent [OF h1 h2] h1 h2 show ?thesis by (simp add: s)
qed

end
